theory Spec2Isabelle
  imports Complex_Main "HOL-Library.AList"
begin

section \<open>Errors\<close>

text \<open>
  The exceptions the trainer module can raise by itself.  \<open>ValueError n\<close> is
  \<^verbatim>\<open>ValueError(f"Invalid number of TPUs: {n}")\<close>, \<open>KeyError k\<close> is a failed dictionary
  subscript \<^verbatim>\<open>batch[k]\<close>, and \<open>UnboundLocalError v\<close> is a read of the local variable
  \<open>v\<close> before any assignment to it.
\<close>

datatype error = ValueError int | KeyError string | UnboundLocalError string

section \<open>Device mesh\<close>

text \<open>
  \<^verbatim>\<open>jax.sharding.Mesh(device_mesh, axis_names=("batch", "fsdp", "mp"))\<close>: a mesh is its
  shape and the names of its axes.  The two library calls that build it are taken to
  succeed.
\<close>

record mesh =
  mesh_shape :: "nat list"
  axis_names :: "string list"

text \<open>
  \<^verbatim>\<open>get_mesh(num_tpus)\<close>.  The result is the line printed before the mesh is built,
  and the mesh; the \<^verbatim>\<open>else\<close> branch raises before anything is printed or built.
\<close>

definition get_mesh :: "int \<Rightarrow> error + (string \<times> mesh)" where
  "get_mesh num_tpus =
     (if num_tpus = 4 then
        Inr (''Creating TPU device mesh with shape (1, 2, 2)...'',
             \<lparr>mesh_shape = [1, 2, 2], axis_names = [''batch'', ''fsdp'', ''mp'']\<rparr>)
      else if num_tpus = 8 then
        Inr (''Creating TPU device mesh with shape (2, 2, 2)...'',
             \<lparr>mesh_shape = [2, 2, 2], axis_names = [''batch'', ''fsdp'', ''mp'']\<rparr>)
      else Inl (ValueError num_tpus))"

section \<open>Batches\<close>

text \<open>
  A batch value is a two-dimensional integer tensor: either a PyTorch tensor or a JAX
  array (\<^verbatim>\<open>isinstance(v, jax.Array)\<close>), with an element type, a number of columns and
  its rows.  Its shape is \<open>(length (rows t), ncols t)\<close>; the column count is kept apart
  from the rows so that a tensor with no rows still has a sequence length.
\<close>

datatype array_kind = TorchTensor | JaxArray

datatype dtype = Int32 | Int64

record tensor =
  kind :: array_kind
  dtype :: dtype
  ncols :: nat
  rows :: "int list list"

text \<open>
  \<^verbatim>\<open>jax.numpy.array(v.numpy())\<close>: the same data as a JAX array.  The element type
  is kept here; the entries the preprocessor reads are cast to 32 bits right after.
\<close>

definition to_jax :: "tensor \<Rightarrow> tensor" where
  "to_jax v = v\<lparr>kind := JaxArray\<rparr>"

text \<open>The value expression of the dictionary comprehension on lines 44-47.\<close>

definition to_array :: "tensor \<Rightarrow> tensor" where
  "to_array v = (if kind v = JaxArray then v else to_jax v)"

text \<open>
  A cast to a signed 32-bit integer keeps the low 32 bits (two's complement), and
  \<^verbatim>\<open>x.astype(jnp.int32)\<close> casts every element.
\<close>

definition wrap_int32 :: "int \<Rightarrow> int" where
  "wrap_int32 x = (x + 2147483648) mod 4294967296 - 2147483648"

definition astype_int32 :: "tensor \<Rightarrow> tensor" where
  "astype_int32 t = t\<lparr>dtype := Int32, rows := map (map wrap_int32) (rows t)\<rparr>"

text \<open>
  \<^verbatim>\<open>jnp.repeat(jnp.arange(seq_length)[None, :], batch_size, axis=0)\<close>: the row
  \<open>0, 1, ..., seq_length - 1\<close>, repeated once per batch row.
\<close>

definition arange :: "nat \<Rightarrow> int list" where
  "arange n = map int [0..<n]"

definition position_ids_of :: "nat \<Rightarrow> nat \<Rightarrow> tensor" where
  "position_ids_of seq_length batch_size =
     \<lparr>kind = JaxArray, dtype = Int32, ncols = seq_length,
      rows = replicate batch_size (arange seq_length)\<rparr>"

text \<open>
  A batch is a Python \<^verbatim>\<open>dict\<close> from names to tensors: an association list in insertion
  order, with distinct keys.  \<^verbatim>\<open>d[k]\<close> raises \<^verbatim>\<open>KeyError\<close> on a missing key;
  \<^verbatim>\<open>d[k] = v\<close> replaces the value of an existing key in place and appends a new key.
\<close>

type_synonym dict = "(string \<times> tensor) list"

definition getitem :: "dict \<Rightarrow> string \<Rightarrow> error + tensor" where
  "getitem d k = (case map_of d k of None \<Rightarrow> Inl (KeyError k) | Some v \<Rightarrow> Inr v)"

text \<open>
  Dictionaries are mutable objects, so they live in a heap: a list of dictionaries, a
  reference being an index into it.  Allocation appends; item assignment updates the
  dictionary stored at the reference.
\<close>

type_synonym ref = nat

type_synonym heap = "dict list"

definition heap_alloc :: "heap \<Rightarrow> dict \<Rightarrow> heap \<times> ref" where
  "heap_alloc h d = (h @ [d], length h)"

definition heap_setitem :: "heap \<Rightarrow> ref \<Rightarrow> string \<Rightarrow> tensor \<Rightarrow> heap" where
  "heap_setitem h r k v = h[r := AList.update k v (h ! r)]"

text \<open>
  \<^verbatim>\<open>_preprocess_batch(batch)\<close>, statement by statement.  The parameter \<open>batch\<close> is a
  reference to the caller's dictionary (a reference the caller holds is always below
  \<open>length h\<close>).  The dictionary comprehension allocates a new dictionary and rebinds
  the local name to it; the three item assignments that follow go through that new
  reference.  The function returns the final heap and the reference it returns.
\<close>

definition preprocess_batch :: "heap \<Rightarrow> ref \<Rightarrow> error + (heap \<times> ref)" where
  "preprocess_batch h batch =
     (case heap_alloc h (map (\<lambda>(k, v). (k, to_array v)) (h ! batch)) of
        (h1, batch1) \<Rightarrow>
     (case getitem (h1 ! batch1) ''input_ids'' of
        Inl e \<Rightarrow> Inl e
      | Inr input_ids \<Rightarrow>
     (let h2 = heap_setitem h1 batch1 ''input_ids'' (astype_int32 input_ids) in
     (case getitem (h2 ! batch1) ''labels'' of
        Inl e \<Rightarrow> Inl e
      | Inr labels \<Rightarrow>
     (let h3 = heap_setitem h2 batch1 ''labels'' (astype_int32 labels) in
     (case getitem (h3 ! batch1) ''input_ids'' of
        Inl e \<Rightarrow> Inl e
      | Inr ids \<Rightarrow>
     (let seq_length = ncols ids;
          h4 = heap_setitem h3 batch1 ''position_ids''
                 (position_ids_of seq_length (length (rows ids)))
      in Inr (h4, batch1))))))))"

text \<open>
  The dictionary the preprocessor builds from a dictionary \<open>d\<close> whose
  \<^verbatim>\<open>"input_ids"\<close> and \<^verbatim>\<open>"labels"\<close> are \<open>ids\<close> and \<open>lbl\<close>.
\<close>

definition preprocessed :: "dict \<Rightarrow> tensor \<Rightarrow> tensor \<Rightarrow> dict" where
  "preprocessed d ids lbl =
     AList.update ''position_ids'' (position_ids_of (ncols ids) (length (rows ids)))
       (AList.update ''labels'' (astype_int32 (to_array lbl))
         (AList.update ''input_ids'' (astype_int32 (to_array ids))
           (map (\<lambda>(k, v). (k, to_array v)) d)))"


text \<open>
  The canonical form of a batch: every value a JAX array, \<^verbatim>\<open>"input_ids"\<close> and
  \<^verbatim>\<open>"labels"\<close> of 32-bit integers, \<^verbatim>\<open>"position_ids"\<close> present.
\<close>

definition has_int32 :: "dict \<Rightarrow> string \<Rightarrow> bool" where
  "has_int32 d k = (case map_of d k of None \<Rightarrow> False | Some v \<Rightarrow> dtype v = Int32)"

definition canonical :: "dict \<Rightarrow> bool" where
  "canonical d =
     (list_all (\<lambda>(k, v). kind v = JaxArray) d \<and> has_int32 d ''input_ids'' \<and>
      has_int32 d ''labels'' \<and> map_of d ''position_ids'' \<noteq> None)"

section \<open>Loss and accuracy\<close>

text \<open>
  Floating-point values are modelled by exact reals, with \<open>None\<close> for a value that is
  not a finite number (NaN, or the result of a division by zero).  Arithmetic on
  \<open>None\<close> gives \<open>None\<close>; rounding is not modelled.
\<close>

type_synonym fl = "real option"

definition fl_add :: "fl \<Rightarrow> fl \<Rightarrow> fl" where
  "fl_add a b =
     (case a of None \<Rightarrow> None
      | Some x \<Rightarrow> (case b of None \<Rightarrow> None | Some y \<Rightarrow> Some (x + y)))"

definition fl_sum :: "fl list \<Rightarrow> fl" where
  "fl_sum xs = foldr fl_add xs (Some 0)"

definition fl_div :: "fl \<Rightarrow> real \<Rightarrow> fl" where
  "fl_div a d =
     (case a of None \<Rightarrow> None | Some x \<Rightarrow> if d = 0 then None else Some (x / d))"

definition fl_neg :: "fl \<Rightarrow> fl" where
  "fl_neg a = map_option uminus a"

text \<open>\<^verbatim>\<open>jnp.mean\<close>: the sum divided by the number of elements; of no elements, NaN.\<close>

definition fl_mean :: "fl list \<Rightarrow> fl" where
  "fl_mean xs = fl_div (fl_sum xs) (real (length xs))"

text \<open>\<^verbatim>\<open>jax.nn.log_softmax\<close> along the vocabulary axis.\<close>

definition log_softmax :: "real list \<Rightarrow> real list" where
  "log_softmax xs = map (\<lambda>x. x - ln (sum_list (map exp xs))) xs"

text \<open>
  \<^verbatim>\<open>jnp.argmax\<close> along the vocabulary axis: the first index of the greatest element
  (the axis is not empty: on an empty axis the library raises).
\<close>

definition argmax :: "real list \<Rightarrow> nat" where
  "argmax xs = length (takeWhile (\<lambda>x. x \<noteq> Max (set xs)) xs)"

text \<open>
  \<^verbatim>\<open>jnp.take_along_axis\<close> at one position: a negative index counts from the end, and
  an index outside the axis gathers NaN (the library's default for a gather out of
  bounds).  The theorems below do not rest on what is gathered out of bounds: they
  concern targets inside the vocabulary, or positions the mask drops.
\<close>

definition take_at :: "real list \<Rightarrow> int \<Rightarrow> fl" where
  "take_at xs i =
     (let n = int (length xs); j = (if i < 0 then i + n else i)
      in if 0 \<le> j \<and> j < n then Some (xs ! nat j) else None)"

text \<open>
  The steps of \<^verbatim>\<open>_cross_entropy_loss_and_accuracy(logits, tokens, mask=None)\<close>.
  \<open>logits\<close> has shape (batch, seq, vocab), \<open>tokens\<close> and \<open>mask\<close> have shape
  (batch, seq); arrays are nested lists, outermost axis first.  The element-wise
  operations pair the arrays position by position, which is what the library does on
  arrays of these shapes.

  Lines 62-64: the mask as 32-bit floats, all ones when absent.
\<close>

definition float_mask :: "int list list \<Rightarrow> int list list option \<Rightarrow> real list list" where
  "float_mask tokens msk =
     (case msk of
        None \<Rightarrow> map (map (\<lambda>t. 1)) tokens
      | Some m \<Rightarrow> map (map real_of_int) m)"

text \<open>Line 66: \<^verbatim>\<open>jnp.maximum(jnp.sum(mask, axis=-1), 1e-10)\<close>.\<close>

definition valid_text_length :: "real list list \<Rightarrow> real list" where
  "valid_text_length msk = map (\<lambda>row. max (sum_list row) (1 / 10 ^ 10)) msk"

text \<open>Lines 69-77: the log-probability of each target token, zero where masked out.\<close>

definition token_log_prob ::
  "real list list list \<Rightarrow> int list list \<Rightarrow> real list list \<Rightarrow> fl list list" where
  "token_log_prob logits tokens msk =
     map2 (map2 (\<lambda>m p. if m > 0 then p else Some 0)) msk
       (map2 (map2 (\<lambda>l t. take_at (log_softmax l) t)) logits tokens)"

text \<open>Lines 79-81: whether the prediction is the target, false where masked out.\<close>

definition correct :: "real list list list \<Rightarrow> int list list \<Rightarrow> real list list \<Rightarrow> bool list list" where
  "correct logits tokens msk =
     map2 (map2 (\<lambda>m c. if m > 0 then c else False)) msk
       (map2 (map2 (\<lambda>l t. int (argmax l) = t)) logits tokens)"

text \<open>
  The arguments of \<^verbatim>\<open>jnp.mean\<close> on lines 78 and 82: one quotient per sequence.  The
  sum of a row of booleans is the number of true ones.
\<close>

definition per_sequence_log_prob ::
  "real list list list \<Rightarrow> int list list \<Rightarrow> real list list \<Rightarrow> fl list" where
  "per_sequence_log_prob logits tokens msk =
     map2 (\<lambda>r v. fl_div (fl_sum r) v) (token_log_prob logits tokens msk)
       (valid_text_length msk)"

definition per_sequence_accuracy ::
  "real list list list \<Rightarrow> int list list \<Rightarrow> real list list \<Rightarrow> fl list" where
  "per_sequence_accuracy logits tokens msk =
     map2 (\<lambda>r v. fl_div (Some (real (length (filter id r)))) v) (correct logits tokens msk)
       (valid_text_length msk)"

definition cross_entropy_loss_and_accuracy ::
  "real list list list \<Rightarrow> int list list \<Rightarrow> int list list option \<Rightarrow> fl \<times> fl" where
  "cross_entropy_loss_and_accuracy logits tokens msk =
     (let fmask = float_mask tokens msk;
          loss = fl_neg (fl_mean (per_sequence_log_prob logits tokens fmask));
          accuracy = fl_mean (per_sequence_accuracy logits tokens fmask)
      in (loss, accuracy))"

text \<open>
  The inputs the function is meant for: a non-empty batch, the three arrays of matching
  shapes, a non-empty vocabulary axis, and every target that the mask keeps inside the
  vocabulary.
\<close>

definition row_ok :: "real list list \<Rightarrow> int list \<Rightarrow> int list \<Rightarrow> bool" where
  "row_ok lrow trow mrow =
     (length lrow = length trow \<and> length mrow = length trow \<and>
      list_all (\<lambda>(l, t, m). l \<noteq> [] \<and> (0 < m \<longrightarrow> 0 \<le> t \<and> t < int (length l)))
        (zip lrow (zip trow mrow)))"

definition inputs_ok :: "real list list list \<Rightarrow> int list list \<Rightarrow> int list list \<Rightarrow> bool" where
  "inputs_ok logits tokens msk =
     (tokens \<noteq> [] \<and> length logits = length tokens \<and> length msk = length tokens \<and>
      list_all (\<lambda>(l, t, m). row_ok l t m) (zip logits (zip tokens msk)))"

text \<open>
  The loss and the accuracy as the specification words them, over exact reals, by
  positions: the per-sequence sum of the log-probabilities of the targets the mask
  keeps, the per-sequence number of kept positions predicted right, the floored count
  of valid tokens, and the means over the batch.
\<close>

definition spec_valid_count :: "int list \<Rightarrow> real" where
  "spec_valid_count mrow = max (real_of_int (sum_list mrow)) (1 / 10 ^ 10)"

definition spec_sequence_log_prob :: "real list list \<Rightarrow> int list \<Rightarrow> int list \<Rightarrow> real" where
  "spec_sequence_log_prob lrow trow mrow =
     (\<Sum>i<length trow. if 0 < mrow ! i then log_softmax (lrow ! i) ! nat (trow ! i) else 0)"

definition spec_sequence_correct :: "real list list \<Rightarrow> int list \<Rightarrow> int list \<Rightarrow> nat" where
  "spec_sequence_correct lrow trow mrow =
     length (filter (\<lambda>i. 0 < mrow ! i \<and> int (argmax (lrow ! i)) = trow ! i) [0..<length trow])"

definition spec_loss :: "real list list list \<Rightarrow> int list list \<Rightarrow> int list list \<Rightarrow> real" where
  "spec_loss logits tokens msk =
     - ((\<Sum>b<length tokens.
           spec_sequence_log_prob (logits ! b) (tokens ! b) (msk ! b)
             / spec_valid_count (msk ! b))
        / real (length tokens))"

definition spec_accuracy :: "real list list list \<Rightarrow> int list list \<Rightarrow> int list list \<Rightarrow> real" where
  "spec_accuracy logits tokens msk =
     (\<Sum>b<length tokens.
         real (spec_sequence_correct (logits ! b) (tokens ! b) (msk ! b))
           / spec_valid_count (msk ! b))
     / real (length tokens)"

definition all_ones :: "int list list \<Rightarrow> int list list" where
  "all_ones tokens = map (map (\<lambda>t. 1)) tokens"

text \<open>The mask the function works with: the given one, or all ones.\<close>

definition mask_or_ones :: "int list list \<Rightarrow> int list list option \<Rightarrow> int list list" where
  "mask_or_ones tokens msk = (case msk of None \<Rightarrow> all_ones tokens | Some m \<Rightarrow> m)"

section \<open>Forward pass and training step\<close>

text \<open>
  The slices of \<^verbatim>\<open>Trainer.forward\<close>: \<^verbatim>\<open>logits[..., :-1, :]\<close> keeps all but the last
  position of every sequence, \<^verbatim>\<open>x[..., 1:]\<close> keeps all but the first.
\<close>

definition remove_last_logit :: "real list list list \<Rightarrow> real list list list" where
  "remove_last_logit logits = map (\<lambda>sq. take (length sq - 1) sq) logits"

definition remove_first_token :: "tensor \<Rightarrow> tensor" where
  "remove_first_token t = t\<lparr>ncols := ncols t - 1, rows := map (drop 1) (rows t)\<rparr>"

text \<open>
  \<^verbatim>\<open>Trainer.forward(model_params, model_static, batch)\<close>.  The model is a collaborator:
  \<open>apply_model params input_ids attention_mask position_ids\<close> stands for the logits that
  the model combined from \<open>params\<close> computes, of shape (batch, seq, vocab).
  \<^verbatim>\<open>batch.get(k, None)\<close> is the lookup \<open>map_of batch k\<close>.
\<close>

definition forward ::
  "('p \<Rightarrow> tensor \<Rightarrow> tensor option \<Rightarrow> tensor option \<Rightarrow> real list list list)
     \<Rightarrow> 'p \<Rightarrow> dict \<Rightarrow> error + (fl \<times> fl)" where
  "forward apply_model model_params batch =
     (case getitem batch ''input_ids'' of
        Inl e \<Rightarrow> Inl e
      | Inr input_ids \<Rightarrow>
     (case getitem batch ''labels'' of
        Inl e \<Rightarrow> Inl e
      | Inr labels \<Rightarrow>
     (let attention_mask = map_of batch ''attention_mask'';
          position_ids = map_of batch ''position_ids'';
          logits = apply_model model_params input_ids attention_mask position_ids;
          shifted_logits = remove_last_logit logits;
          shifted_labels = remove_first_token labels;
          shifted_mask =
            (case attention_mask of
               None \<Rightarrow> None
             | Some am \<Rightarrow> Some (remove_first_token am))
      in Inr (cross_entropy_loss_and_accuracy shifted_logits (rows shifted_labels)
                (map_option rows shifted_mask)))))"

text \<open>
  \<^verbatim>\<open>Trainer.training_step\<close>: the loss and accuracy of the forward pass, and the
  parameters after the update.  \<open>update params batch\<close> stands for the gradient of the
  loss and the optimizer's update applied to the parameters (the optimizer state is
  part of \<open>'p\<close>); both are library calls.
\<close>

definition training_step ::
  "('p \<Rightarrow> tensor \<Rightarrow> tensor option \<Rightarrow> tensor option \<Rightarrow> real list list list)
     \<Rightarrow> ('p \<Rightarrow> dict \<Rightarrow> 'p) \<Rightarrow> 'p \<Rightarrow> dict \<Rightarrow> error + (fl \<times> fl \<times> 'p)" where
  "training_step apply_model update model_params batch =
     (case forward apply_model model_params batch of
        Inl e \<Rightarrow> Inl e
      | Inr (loss, accuracy) \<Rightarrow> Inr (loss, accuracy, update model_params batch))"

section \<open>Training loop\<close>

record trainer_config =
  model_name :: string
  param_dtype :: string
  output_dtype :: string
  num_epochs :: int
  num_steps :: "int option"
  num_tpus :: int
  base_dir :: string

text \<open>
  What a run does to the outside, in order: the metric lines it prints, the training
  steps it runs (numbered from 1, with the loss and accuracy they return), and its
  calls to the checkpointer and to the export function.
\<close>

datatype event =
    Print_metrics nat fl fl
  | Training_step nat fl fl
  | Save_checkpoint nat
  | Wait_until_finished
  | Print_final_checkpoint
  | Print_training_completed
  | Save_model_to_hf string string
  | Print_hf_saved string

text \<open>
  \<^verbatim>\<open>max_steps = self.trainer_config.num_steps or float("inf")\<close>: \<open>None\<close> is infinity.
  Python's \<^verbatim>\<open>or\<close> takes the right operand when the left one is falsy, that is when it
  is \<^verbatim>\<open>None\<close> or \<open>0\<close>.
\<close>

definition max_steps_of :: "trainer_config \<Rightarrow> int option" where
  "max_steps_of cfg =
     (case num_steps cfg of
        None \<Rightarrow> None
      | Some k \<Rightarrow> if k = 0 then None else Some k)"

text \<open>\<^verbatim>\<open>step >= max_steps\<close>.\<close>

definition step_ge :: "nat \<Rightarrow> int option \<Rightarrow> bool" where
  "step_ge step max_steps = (case max_steps of None \<Rightarrow> False | Some m \<Rightarrow> m \<le> int step)"

text \<open>
  The local variables of \<^verbatim>\<open>Trainer.train\<close> that the loop changes, and the events so
  far.  \<open>step_var\<close> is the loop variable \<^verbatim>\<open>step\<close>: unbound until the loader yields a
  first batch.
\<close>

record 'p loop_state =
  params :: 'p
  step_var :: "nat option"
  prev_step :: nat
  prev_loss :: fl
  prev_accuracy :: fl
  trace :: "event list"

datatype 'p outcome =
    Continue "'p loop_state"
  | Break "'p loop_state"
  | Raise error "'p loop_state"

text \<open>
  One iteration of the \<^verbatim>\<open>for\<close> loop, for the pair \<open>(step, batch)\<close> that
  \<^verbatim>\<open>enumerate\<close> yields.  The batch is an object of its own, so the preprocessor runs
  in a heap that holds just it.  \<^verbatim>\<open>jax.device_put\<close> changes no value.
\<close>

definition loop_body ::
  "('p \<Rightarrow> tensor \<Rightarrow> tensor option \<Rightarrow> tensor option \<Rightarrow> real list list list)
     \<Rightarrow> ('p \<Rightarrow> dict \<Rightarrow> 'p) \<Rightarrow> bool \<Rightarrow> int option
     \<Rightarrow> nat \<Rightarrow> dict \<Rightarrow> 'p loop_state \<Rightarrow> 'p outcome" where
  "loop_body apply_model update checkpointer max_steps step batch s =
     (let s0 = s\<lparr>step_var := Some step\<rparr> in
      if step_ge step max_steps then Break s0
      else
        (let s1 =
               (if step \<noteq> 0
                then s0\<lparr>trace := trace s0 @
                        [Print_metrics (prev_step s0) (prev_loss s0) (prev_accuracy s0)]\<rparr>
                else s0)
         in case preprocess_batch [batch] 0 of
              Inl e \<Rightarrow> Raise e s1
            | Inr (h, batch1) \<Rightarrow>
           (case training_step apply_model update (params s1) (h ! batch1) of
              Inl e \<Rightarrow> Raise e s1
            | Inr (loss, accuracy, model_params) \<Rightarrow>
           (let s2 = s1\<lparr>params := model_params, prev_step := step + 1,
                         prev_loss := loss, prev_accuracy := accuracy,
                         trace := trace s1 @ [Training_step (step + 1) loss accuracy]\<rparr>;
                s3 = (if checkpointer
                      then s2\<lparr>trace := trace s2 @ [Save_checkpoint (step + 1)]\<rparr>
                      else s2)
            in Continue s3))))"

fun train_loop ::
  "('p \<Rightarrow> tensor \<Rightarrow> tensor option \<Rightarrow> tensor option \<Rightarrow> real list list list)
     \<Rightarrow> ('p \<Rightarrow> dict \<Rightarrow> 'p) \<Rightarrow> bool \<Rightarrow> int option
     \<Rightarrow> nat \<Rightarrow> dict list \<Rightarrow> 'p loop_state \<Rightarrow> error option \<times> 'p loop_state" where
  "train_loop apply_model update checkpointer max_steps step [] s = (None, s)"
| "train_loop apply_model update checkpointer max_steps step (batch # rest) s =
     (case loop_body apply_model update checkpointer max_steps step batch s of
        Continue s' \<Rightarrow> train_loop apply_model update checkpointer max_steps (Suc step) rest s'
      | Break s' \<Rightarrow> (None, s')
      | Raise e s' \<Rightarrow> (Some e, s'))"

text \<open>\<^verbatim>\<open>os.path.join(base, name)\<close> for a relative \<open>name\<close>.\<close>

definition path_join :: "string \<Rightarrow> string \<Rightarrow> string" where
  "path_join base name =
     (if base = [] then name
      else if last base = CHR ''/'' then base @ name
      else base @ ''/'' @ name)"

text \<open>
  \<^verbatim>\<open>Trainer.train()\<close>.  \<open>checkpointer\<close> says whether one is configured, \<open>dataloader\<close>
  is the finite sequence of batches the training data loader yields, \<open>params0\<close> the
  parameters and optimizer state at the start.  The result is the events of the run
  and either the exception that ended it or the final parameters.  The calls to the
  checkpointer and to the export function are taken to succeed.
\<close>

definition train ::
  "trainer_config
     \<Rightarrow> ('p \<Rightarrow> tensor \<Rightarrow> tensor option \<Rightarrow> tensor option \<Rightarrow> real list list list)
     \<Rightarrow> ('p \<Rightarrow> dict \<Rightarrow> 'p) \<Rightarrow> bool \<Rightarrow> dict list \<Rightarrow> 'p
     \<Rightarrow> event list \<times> (error + 'p)" where
  "train cfg apply_model update checkpointer dataloader params0 =
     (let max_steps = max_steps_of cfg;
          s0 = \<lparr>params = params0, step_var = None, prev_step = 0,
                prev_loss = Some 0, prev_accuracy = Some 0, trace = []\<rparr>
      in case train_loop apply_model update checkpointer max_steps 0 dataloader s0 of
           (Some e, s) \<Rightarrow> (trace s, Inl e)
         | (None, s) \<Rightarrow>
        (let export_dir = path_join (base_dir cfg) ''hf_export'';
             finish = [Print_training_completed,
                       Save_model_to_hf export_dir (model_name cfg),
                       Print_hf_saved export_dir]
         in if checkpointer then
              (case step_var s of
                 None \<Rightarrow> (trace s, Inl (UnboundLocalError ''step''))
               | Some step \<Rightarrow>
                   (trace s @ [Save_checkpoint (step + 1), Wait_until_finished,
                               Print_final_checkpoint] @ finish,
                    Inr (params s)))
            else (trace s @ finish, Inr (params s))))"

text \<open>
  Reading a trace: which events are training steps, metric lines, and calls to the
  collaborators (checkpoint saves, the wait barrier, the export); the number of a
  training step, and the metric line that reports it.
\<close>

fun is_step :: "event \<Rightarrow> bool" where
  "is_step (Training_step k l a) = True"
| "is_step e = False"

fun is_print_metrics :: "event \<Rightarrow> bool" where
  "is_print_metrics (Print_metrics k l a) = True"
| "is_print_metrics e = False"

fun is_call :: "event \<Rightarrow> bool" where
  "is_call (Save_checkpoint k) = True"
| "is_call Wait_until_finished = True"
| "is_call (Save_model_to_hf d m) = True"
| "is_call e = False"

fun step_no :: "event \<Rightarrow> nat" where
  "step_no (Training_step k l a) = k"
| "step_no e = 0"

fun print_of :: "event \<Rightarrow> event" where
  "print_of (Training_step k l a) = Print_metrics k l a"
| "print_of e = e"

definition steps_executed :: "event list \<Rightarrow> nat" where
  "steps_executed tr = length (filter is_step tr)"

text \<open>
  The shape of the events of the loop, used to reason about it: the iterations that
  run a step, starting at loop index \<open>k\<close>, are given by the metrics \<open>(loss, accuracy)\<close>
  they return; \<open>pend\<close> is what the first of them prints before its step.
\<close>

fun loop_events :: "bool \<Rightarrow> nat \<Rightarrow> event list \<Rightarrow> (fl \<times> fl) list \<Rightarrow> event list" where
  "loop_events ck k pend [] = []"
| "loop_events ck k pend ((l, a) # rs) =
     pend @ [Training_step (Suc k) l a] @ (if ck then [Save_checkpoint (Suc k)] else []) @
     loop_events ck (Suc k) [Print_metrics (Suc k) l a] rs"

definition pending :: "nat \<Rightarrow> 'p loop_state \<Rightarrow> event list" where
  "pending k s =
     (if k \<noteq> 0 then [Print_metrics (prev_step s) (prev_loss s) (prev_accuracy s)] else [])"


text \<open>Steps in order, each but the last followed by the line that reports it.\<close>

fun deferred :: "event list \<Rightarrow> event list" where
  "deferred [] = []"
| "deferred [e] = [e]"
| "deferred (e # e' # es) = e # print_of e # deferred (e' # es)"

text \<open>The events after the loop and its final checkpoint.\<close>

definition finish_events :: "trainer_config \<Rightarrow> event list" where
  "finish_events cfg =
     [Print_training_completed,
      Save_model_to_hf (path_join (base_dir cfg) ''hf_export'') (model_name cfg),
      Print_hf_saved (path_join (base_dir cfg) ''hf_export'')]"

fun is_save :: "event \<Rightarrow> bool" where
  "is_save (Save_checkpoint k) = True"
| "is_save e = False"

section \<open>Example inputs\<close>

text \<open>
  Concrete inputs on which the theorems below are instantiated: a configuration with a
  given step cap, a batch of two sequences of length four as a data loader yields it,
  a batch in canonical form, a model that gives every token of a vocabulary of ten the
  same logit, and an update that leaves the parameters alone.
\<close>

definition example_config :: "int option \<Rightarrow> trainer_config" where
  "example_config cap =
     \<lparr>model_name = ''meta-llama/Llama-3.2-1B'', param_dtype = ''float32'',
      output_dtype = ''float32'', num_epochs = 1, num_steps = cap, num_tpus = 4,
      base_dir = ''/mnt/persistent-disk''\<rparr>"

definition example_batch :: dict where
  "example_batch =
     [(''input_ids'',
       \<lparr>kind = TorchTensor, dtype = Int64, ncols = 4, rows = [[5, 6, 7, 8], [1, 2, 3, 4]]\<rparr>),
      (''labels'',
       \<lparr>kind = TorchTensor, dtype = Int64, ncols = 4, rows = [[5, 6, 7, 8], [1, 2, 3, 4]]\<rparr>)]"

definition example_model ::
  "unit \<Rightarrow> tensor \<Rightarrow> tensor option \<Rightarrow> tensor option \<Rightarrow> real list list list" where
  "example_model p input_ids attention_mask position_ids =
     map (map (\<lambda>t. replicate 10 0)) (rows input_ids)"

definition example_update :: "unit \<Rightarrow> dict \<Rightarrow> unit" where
  "example_update p batch = p"

text \<open>A batch without \<^verbatim>\<open>"input_ids"\<close>, on which the preprocessor raises.\<close>

definition example_bad_batch :: dict where
  "example_bad_batch =
     [(''labels'',
       \<lparr>kind = TorchTensor, dtype = Int64, ncols = 4, rows = [[5, 6, 7, 8], [1, 2, 3, 4]]\<rparr>)]"

definition example_canonical_batch :: dict where
  "example_canonical_batch =
     [(''input_ids'',
       \<lparr>kind = JaxArray, dtype = Int32, ncols = 3, rows = [[5, 6, 7]]\<rparr>),
      (''attention_mask'',
       \<lparr>kind = JaxArray, dtype = Int32, ncols = 3, rows = [[1, 1, 0]]\<rparr>),
      (''labels'',
       \<lparr>kind = JaxArray, dtype = Int32, ncols = 3, rows = [[5, 6, 7]]\<rparr>),
      (''position_ids'',
       \<lparr>kind = JaxArray, dtype = Int32, ncols = 3, rows = [[0, 1, 2]]\<rparr>)]"

text \<open>
  Logits, targets and a mask for two sequences of two positions over a vocabulary of
  two; the mask drops the whole second sequence, whose targets are the ignore index.
\<close>

definition example_logits :: "real list list list" where
  "example_logits = [[[0, 0], [0, 0]], [[3, 1], [2, 5]]]"

definition example_tokens :: "int list list" where
  "example_tokens = [[1, 0], [- 100, - 100]]"

definition example_mask :: "int list list" where
  "example_mask = [[1, 1], [0, 0]]"

section \<open>Properties of the mesh builder\<close>

text \<open>
  C3: for every device count \<open>n\<close>, the mesh builder returns a mesh with the three axes
  "batch", "fsdp", "mp", of shape (1, 2, 2) when \<open>n = 4\<close> and of shape (2, 2, 2) when
  \<open>n = 8\<close>; for every other \<open>n\<close> it raises the configuration error and builds no
  mesh.  It raises exactly when \<open>n\<close> is neither 4 nor 8.
\<close>

theorem get_mesh_shapes:
  "(n = 4 \<longrightarrow> map_sum id snd (get_mesh n) =
        Inr \<lparr>mesh_shape = [1, 2, 2], axis_names = [''batch'', ''fsdp'', ''mp'']\<rparr>) \<and>
   (n = 8 \<longrightarrow> map_sum id snd (get_mesh n) =
        Inr \<lparr>mesh_shape = [2, 2, 2], axis_names = [''batch'', ''fsdp'', ''mp'']\<rparr>) \<and>
   (n \<noteq> 4 \<and> n \<noteq> 8 \<longrightarrow> get_mesh n = Inl (ValueError n)) \<and>
   (isl (get_mesh n) \<longleftrightarrow> n \<noteq> 4 \<and> n \<noteq> 8)"
  by (simp add: get_mesh_def)

theorem get_mesh_shapes_witness:
  "map_sum id snd (get_mesh 4) =
      Inr \<lparr>mesh_shape = [1, 2, 2], axis_names = [''batch'', ''fsdp'', ''mp'']\<rparr> \<and>
   map_sum id snd (get_mesh 8) =
      Inr \<lparr>mesh_shape = [2, 2, 2], axis_names = [''batch'', ''fsdp'', ''mp'']\<rparr> \<and>
   get_mesh 6 = Inl (ValueError 6) \<and> isl (get_mesh 6) \<and> \<not> isl (get_mesh 4)"
  using get_mesh_shapes [of 4] get_mesh_shapes [of 8] get_mesh_shapes [of 6]
  by simp

section \<open>Properties of the batch preprocessor\<close>

lemma map_of_to_array:
  "map_of (map (\<lambda>(k, v). (k, to_array v)) d) k = map_option to_array (map_of d k)"
  by (induction d) auto

lemma to_array_fields [simp]:
  "kind (to_array v) = JaxArray" "ncols (to_array v) = ncols v" "rows (to_array v) = rows v"
  "dtype (to_array v) = dtype v"
  by (simp_all add: to_array_def to_jax_def)

lemma to_array_id: "kind v = JaxArray \<Longrightarrow> to_array v = v"
  by (simp add: to_array_def)

lemma astype_int32_fields [simp]:
  "kind (astype_int32 v) = kind v" "ncols (astype_int32 v) = ncols v"
  "rows (astype_int32 v) = map (map wrap_int32) (rows v)" "dtype (astype_int32 v) = Int32"
  by (simp_all add: astype_int32_def)

lemma wrap_int32_range: "- 2147483648 \<le> wrap_int32 x \<and> wrap_int32 x < 2147483648"
  unfolding wrap_int32_def
  using pos_mod_sign [of 4294967296 "x + 2147483648"] pos_mod_bound [of 4294967296 "x + 2147483648"]
  by linarith

lemma wrap_int32_id: "- 2147483648 \<le> x \<Longrightarrow> x < 2147483648 \<Longrightarrow> wrap_int32 x = x"
  by (simp add: wrap_int32_def)

lemma wrap_int32_idem: "wrap_int32 (wrap_int32 x) = wrap_int32 x"
  using wrap_int32_range [of x] by (simp add: wrap_int32_id)

lemma astype_int32_idem: "astype_int32 (astype_int32 v) = astype_int32 v"
  by (simp add: astype_int32_def wrap_int32_idem comp_def)

lemma preprocess_batch_result:
  assumes "batch < length h"
    and "map_of (h ! batch) ''input_ids'' = Some ids"
    and "map_of (h ! batch) ''labels'' = Some lbl"
  shows "preprocess_batch h batch = Inr (h @ [preprocessed (h ! batch) ids lbl], length h)"
  using assms
  by (simp add: preprocess_batch_def heap_alloc_def getitem_def heap_setitem_def
      preprocessed_def map_of_to_array update_conv' Let_def)

lemma preprocess_batch_KeyError:
  assumes "map_of (h ! batch) ''input_ids'' = None \<or> map_of (h ! batch) ''labels'' = None"
  shows "\<exists>k. preprocess_batch h batch = Inl (KeyError k)"
  using assms
  by (auto simp add: preprocess_batch_def heap_alloc_def getitem_def heap_setitem_def
      map_of_to_array update_conv' Let_def split: option.splits)

lemma list_all_update:
  "list_all P al \<Longrightarrow> P (k, v) \<Longrightarrow> list_all P (AList.update k v al)"
  by (induction al) auto

lemma preprocessed_all_arrays: "list_all (\<lambda>(k, v). kind v = JaxArray) (preprocessed d ids lbl)"
proof -
  have "list_all (\<lambda>(k, v). kind v = JaxArray) (map (\<lambda>(k, v). (k, to_array v)) d)"
    by (induction d) auto
  then show ?thesis
    unfolding preprocessed_def
    by (intro list_all_update) (simp_all add: position_ids_of_def)
qed

lemma preprocessed_lookup:
  "map_of (preprocessed d ids lbl) ''input_ids'' = Some (astype_int32 (to_array ids))"
  "map_of (preprocessed d ids lbl) ''labels'' = Some (astype_int32 (to_array lbl))"
  "map_of (preprocessed d ids lbl) ''position_ids'' =
     Some (position_ids_of (ncols ids) (length (rows ids)))"
  by (simp_all add: preprocessed_def update_conv')

lemma map_to_array_id:
  "list_all (\<lambda>(k, v). kind v = JaxArray) d \<Longrightarrow> map (\<lambda>(k, v). (k, to_array v)) d = d"
  by (induction d) (auto simp: to_array_id)

lemma preprocessed_idem:
  "preprocessed (preprocessed d ids lbl) (astype_int32 (to_array ids)) (astype_int32 (to_array lbl))
     = preprocessed d ids lbl"
proof -
  let ?d1 = "preprocessed d ids lbl"
  have m: "map (\<lambda>(k, v). (k, to_array v)) ?d1 = ?d1"
    by (rule map_to_array_id) (rule preprocessed_all_arrays)
  have a: "astype_int32 (to_array (astype_int32 (to_array v))) = astype_int32 (to_array v)" for v
    by (simp add: to_array_id astype_int32_idem)
  have 1: "AList.update ''input_ids'' (astype_int32 (to_array ids)) ?d1 = ?d1"
    by (rule update_triv) (rule preprocessed_lookup)
  have 2: "AList.update ''labels'' (astype_int32 (to_array lbl)) ?d1 = ?d1"
    by (rule update_triv) (rule preprocessed_lookup)
  have 3: "AList.update ''position_ids'' (position_ids_of (ncols ids) (length (rows ids))) ?d1 = ?d1"
    by (rule update_triv) (rule preprocessed_lookup)
  show ?thesis
    by (subst (1) preprocessed_def) (simp add: m a 1 2 3)
qed

text \<open>
  C6: for every batch mapping that contains "input_ids" and "labels", the input ids of
  shape \<open>(b, s)\<close>, the preprocessor returns a new mapping and leaves every dictionary
  of the caller's heap as it was; in the new mapping every value is a JAX array,
  "input_ids" and "labels" are the 32-bit casts of the caller's, and "position_ids" has
  shape \<open>(b, s)\<close> with every row equal to \<open>0, 1, ..., s - 1\<close>.
\<close>

theorem preprocess_batch_spec:
  assumes "batch < length h"
    and "map_of (h ! batch) ''input_ids'' = Some ids"
    and "map_of (h ! batch) ''labels'' = Some lbl"
    and "length (rows ids) = b" and "ncols ids = s"
  shows "\<exists>h' batch' new_ids new_lbl pos.
           preprocess_batch h batch = Inr (h', batch') \<and>
           batch' \<noteq> batch \<and> batch' < length h' \<and> take (length h) h' = h \<and>
           list_all (\<lambda>(k, v). kind v = JaxArray) (h' ! batch') \<and>
           map_of (h' ! batch') ''input_ids'' = Some new_ids \<and> dtype new_ids = Int32 \<and>
           rows new_ids = map (map wrap_int32) (rows ids) \<and>
           map_of (h' ! batch') ''labels'' = Some new_lbl \<and> dtype new_lbl = Int32 \<and>
           rows new_lbl = map (map wrap_int32) (rows lbl) \<and>
           map_of (h' ! batch') ''position_ids'' = Some pos \<and>
           length (rows pos) = b \<and> ncols pos = s \<and>
           list_all (\<lambda>row. row = map int [0..<s]) (rows pos)"
proof -
  let ?d = "preprocessed (h ! batch) ids lbl"
  have run: "preprocess_batch h batch = Inr (h @ [?d], length h)"
    using assms(1-3) by (rule preprocess_batch_result)
  have pos: "list_all (\<lambda>row. row = map int [0..<s]) (replicate b (arange s))"
    by (simp add: list_all_iff arange_def)
  show ?thesis
    using assms(1,4,5) pos
    by (simp add: run preprocessed_all_arrays preprocessed_lookup position_ids_of_def)
qed

theorem preprocess_batch_spec_witness:
  "\<exists>h' batch' new_ids new_lbl pos.
     preprocess_batch [example_batch] 0 = Inr (h', batch') \<and>
     batch' \<noteq> 0 \<and> batch' < length h' \<and> take 1 h' = [example_batch] \<and>
     list_all (\<lambda>(k, v). kind v = JaxArray) (h' ! batch') \<and>
     map_of (h' ! batch') ''input_ids'' = Some new_ids \<and> dtype new_ids = Int32 \<and>
     rows new_ids = [[5, 6, 7, 8], [1, 2, 3, 4]] \<and>
     map_of (h' ! batch') ''labels'' = Some new_lbl \<and> dtype new_lbl = Int32 \<and>
     rows new_lbl = [[5, 6, 7, 8], [1, 2, 3, 4]] \<and>
     map_of (h' ! batch') ''position_ids'' = Some pos \<and>
     length (rows pos) = 2 \<and> ncols pos = 4 \<and>
     list_all (\<lambda>row. row = [0, 1, 2, 3]) (rows pos)"
proof -
  have u: "map int [0..<4] = [0, 1, 2, 3]"
    by (simp add: upt_conv_Cons)
  from preprocess_batch_spec [of 0 "[example_batch]"
      "\<lparr>kind = TorchTensor, dtype = Int64, ncols = 4, rows = [[5, 6, 7, 8], [1, 2, 3, 4]]\<rparr>"
      "\<lparr>kind = TorchTensor, dtype = Int64, ncols = 4, rows = [[5, 6, 7, 8], [1, 2, 3, 4]]\<rparr>"
      2 4]
  show ?thesis
    by (simp add: example_batch_def wrap_int32_def u)
qed

text \<open>
  C7: on a batch in canonical form, preprocessing the preprocessor's result again
  returns a dictionary equal to that result.
\<close>

theorem preprocess_batch_idempotent:
  assumes "batch < length h" and "canonical (h ! batch)"
  shows "\<exists>h1 batch1 h2 batch2.
           preprocess_batch h batch = Inr (h1, batch1) \<and>
           preprocess_batch h1 batch1 = Inr (h2, batch2) \<and>
           h2 ! batch2 = h1 ! batch1"
proof -
  from assms(2) obtain ids lbl
    where ids: "map_of (h ! batch) ''input_ids'' = Some ids"
      and lbl: "map_of (h ! batch) ''labels'' = Some lbl"
    by (auto simp: canonical_def has_int32_def split: option.splits)
  let ?d1 = "preprocessed (h ! batch) ids lbl"
  let ?h1 = "h @ [?d1]"
  have 1: "preprocess_batch h batch = Inr (?h1, length h)"
    using assms(1) ids lbl by (rule preprocess_batch_result)
  have 2: "preprocess_batch ?h1 (length h) =
      Inr (?h1 @ [preprocessed (?h1 ! length h) (astype_int32 (to_array ids)) (astype_int32 (to_array lbl))],
           length ?h1)"
    by (rule preprocess_batch_result) (simp_all add: preprocessed_lookup)
  show ?thesis
    using 1 2 by (simp add: preprocessed_idem nth_append)
qed

theorem preprocess_batch_idempotent_witness:
  "\<exists>h1 batch1 h2 batch2.
     preprocess_batch [example_canonical_batch] 0 = Inr (h1, batch1) \<and>
     preprocess_batch h1 batch1 = Inr (h2, batch2) \<and>
     h2 ! batch2 = h1 ! batch1"
  using preprocess_batch_idempotent [of 0 "[example_canonical_batch]"]
  by (simp add: canonical_def has_int32_def example_canonical_batch_def)

section \<open>Properties of the loss function\<close>

text \<open>The index \<^verbatim>\<open>jnp.argmax\<close> returns is that of the first greatest element.\<close>

lemma argmax_first_maximum:
  assumes "xs \<noteq> []"
  shows "argmax xs < length xs \<and> xs ! argmax xs = Max (set xs) \<and>
         (\<forall>j < argmax xs. xs ! j < Max (set xs))"
proof -
  let ?P = "\<lambda>x. x \<noteq> Max (set xs)"
  have "Max (set xs) \<in> set xs"
    using assms by (intro Max_in) simp_all
  then have "takeWhile ?P xs \<noteq> xs"
    by (auto simp: takeWhile_eq_all_conv)
  then have lt: "length (takeWhile ?P xs) < length xs"
    using length_takeWhile_le [of ?P xs] takeWhile_eq_take [of ?P xs]
    by (metis le_neq_implies_less take_all_iff order_refl)
  then have hit: "\<not> ?P (xs ! length (takeWhile ?P xs))"
    by (rule nth_length_takeWhile)
  have "xs ! j < Max (set xs)" if "j < length (takeWhile ?P xs)" for j
  proof -
    have "xs ! j = takeWhile ?P xs ! j"
      using that by (simp add: takeWhile_nth)
    moreover have "takeWhile ?P xs ! j \<in> set (takeWhile ?P xs)"
      using that by simp
    then have "?P (takeWhile ?P xs ! j)"
      by (rule set_takeWhileD [THEN conjunct2])
    moreover have "xs ! j \<le> Max (set xs)"
      using that lt by (intro Max_ge) simp_all
    ultimately show ?thesis by simp
  qed
  then show ?thesis
    using lt hit by (simp add: argmax_def)
qed

lemma fl_sum_Some: "fl_sum (map Some xs) = Some (sum_list xs)"
  by (induction xs) (simp_all add: fl_sum_def fl_add_def)

lemma floor_positive: "0 < max x (1 / 10 ^ 10 :: real)"
  by (simp add: less_max_iff_disj)

lemma fl_div_floor: "fl_div (Some x) (max y (1 / 10 ^ 10)) = Some (x / max y (1 / 10 ^ 10))"
  using floor_positive [of y] by (simp add: fl_div_def)

lemma sum_list_real_of_int: "sum_list (map real_of_int xs) = real_of_int (sum_list xs)"
  by (induction xs) simp_all

lemma sum_list_upt: "sum_list (map f [0..<n]) = (\<Sum>i<n. f i)" for f :: "nat \<Rightarrow> real"
  by (simp add: interv_sum_list_conv_sum_set_nat atLeast0LessThan)

lemma float_mask_eq: "float_mask tokens msk = map (map real_of_int) (mask_or_ones tokens msk)"
  by (cases msk) (simp_all add: float_mask_def mask_or_ones_def all_ones_def comp_def)

lemma row_okD:
  assumes "row_ok lrow trow mrow" and "i < length trow"
  shows "lrow ! i \<noteq> []"
    and "0 < mrow ! i \<Longrightarrow> 0 \<le> trow ! i \<and> trow ! i < int (length (lrow ! i))"
  using assms by (auto simp: row_ok_def list_all_length)

lemma row_ok_lengths:
  "row_ok lrow trow mrow \<Longrightarrow> length lrow = length trow \<and> length mrow = length trow"
  by (simp add: row_ok_def)

lemma inputs_okD:
  assumes "inputs_ok logits tokens msk" and "b < length tokens"
  shows "row_ok (logits ! b) (tokens ! b) (msk ! b)"
  using assms by (auto simp: inputs_ok_def list_all_length)

lemma inputs_ok_lengths:
  "inputs_ok logits tokens msk \<Longrightarrow>
     tokens \<noteq> [] \<and> length logits = length tokens \<and> length msk = length tokens"
  by (simp add: inputs_ok_def)

lemma take_at_in_range:
  "0 \<le> t \<Longrightarrow> t < int (length l) \<Longrightarrow> take_at (log_softmax l) t = Some (log_softmax l ! nat t)"
  by (simp add: take_at_def log_softmax_def Let_def)

lemma row_log_prob:
  assumes "row_ok lrow trow mrow"
  shows "fl_sum (map2 (\<lambda>m p. if m > 0 then p else Some 0) (map real_of_int mrow)
                  (map2 (\<lambda>l t. take_at (log_softmax l) t) lrow trow))
         = Some (spec_sequence_log_prob lrow trow mrow)"
proof -
  let ?f = "\<lambda>i. if 0 < mrow ! i then log_softmax (lrow ! i) ! nat (trow ! i) else 0"
  note len = row_ok_lengths [OF assms]
  have "map2 (\<lambda>m p. if m > 0 then p else Some 0) (map real_of_int mrow)
          (map2 (\<lambda>l t. take_at (log_softmax l) t) lrow trow)
        = map Some (map ?f [0..<length trow])"
  proof (rule nth_equalityI)
    show "length (map2 (\<lambda>m p. if m > 0 then p else Some 0) (map real_of_int mrow)
          (map2 (\<lambda>l t. take_at (log_softmax l) t) lrow trow))
        = length (map Some (map ?f [0..<length trow]))"
      using len by simp
  next
    fix i
    assume "i < length (map2 (\<lambda>m p. if m > 0 then p else Some 0) (map real_of_int mrow)
          (map2 (\<lambda>l t. take_at (log_softmax l) t) lrow trow))"
    then have i: "i < length trow"
      using len by simp
    show "map2 (\<lambda>m p. if m > 0 then p else Some 0) (map real_of_int mrow)
          (map2 (\<lambda>l t. take_at (log_softmax l) t) lrow trow) ! i
        = map Some (map ?f [0..<length trow]) ! i"
      using i len row_okD(2) [OF assms i] by (simp add: take_at_in_range)
  qed
  then show ?thesis
    by (simp only: fl_sum_Some sum_list_upt spec_sequence_log_prob_def)
qed

lemma length_filter_upt:
  "length (filter id (map P [0..<n])) = length (filter P [0..<n])"
  by (induction n) simp_all

lemma row_correct:
  assumes "row_ok lrow trow mrow"
  shows "length (filter id (map2 (\<lambda>m c. if m > 0 then c else False) (map real_of_int mrow)
                  (map2 (\<lambda>l t. int (argmax l) = t) lrow trow)))
         = spec_sequence_correct lrow trow mrow"
proof -
  let ?P = "\<lambda>i. 0 < mrow ! i \<and> int (argmax (lrow ! i)) = trow ! i"
  note len = row_ok_lengths [OF assms]
  have "map2 (\<lambda>m c. if m > 0 then c else False) (map real_of_int mrow)
          (map2 (\<lambda>l t. int (argmax l) = t) lrow trow)
        = map ?P [0..<length trow]"
    by (rule nth_equalityI) (use len in auto)
  then show ?thesis
    by (simp only: length_filter_upt spec_sequence_correct_def)
qed

lemma valid_text_length_nth:
  "b < length msk \<Longrightarrow>
     valid_text_length (map (map real_of_int) msk) ! b = spec_valid_count (msk ! b)"
  by (simp add: valid_text_length_def spec_valid_count_def sum_list_real_of_int)

lemma per_sequence_log_prob_eq:
  assumes "inputs_ok logits tokens msk"
  shows "per_sequence_log_prob logits tokens (map (map real_of_int) msk)
         = map Some (map (\<lambda>b. spec_sequence_log_prob (logits ! b) (tokens ! b) (msk ! b)
                                / spec_valid_count (msk ! b)) [0..<length tokens])"
proof (rule nth_equalityI)
  note len = inputs_ok_lengths [OF assms]
  show "length (per_sequence_log_prob logits tokens (map (map real_of_int) msk)) =
      length (map Some (map (\<lambda>b. spec_sequence_log_prob (logits ! b) (tokens ! b) (msk ! b)
                                / spec_valid_count (msk ! b)) [0..<length tokens]))"
    using len by (simp add: per_sequence_log_prob_def token_log_prob_def valid_text_length_def)
  fix b
  assume "b < length (per_sequence_log_prob logits tokens (map (map real_of_int) msk))"
  then have b: "b < length tokens"
    using len by (simp add: per_sequence_log_prob_def token_log_prob_def valid_text_length_def)
  have v: "valid_text_length (map (map real_of_int) msk) ! b = spec_valid_count (msk ! b)"
    using b len by (simp add: valid_text_length_nth)
  have "per_sequence_log_prob logits tokens (map (map real_of_int) msk) ! b
      = fl_div (fl_sum (map2 (\<lambda>m p. if m > 0 then p else Some 0) (map real_of_int (msk ! b))
                  (map2 (\<lambda>l t. take_at (log_softmax l) t) (logits ! b) (tokens ! b))))
          (valid_text_length (map (map real_of_int) msk) ! b)"
    using b len
    by (simp add: per_sequence_log_prob_def token_log_prob_def valid_text_length_def)
  also have "\<dots> = Some (spec_sequence_log_prob (logits ! b) (tokens ! b) (msk ! b)
                      / spec_valid_count (msk ! b))"
    by (simp only: row_log_prob [OF inputs_okD [OF assms b]] v spec_valid_count_def
          fl_div_floor)
  finally show "per_sequence_log_prob logits tokens (map (map real_of_int) msk) ! b =
      map Some (map (\<lambda>b. spec_sequence_log_prob (logits ! b) (tokens ! b) (msk ! b)
                                / spec_valid_count (msk ! b)) [0..<length tokens]) ! b"
    using b by simp
qed

lemma per_sequence_accuracy_eq:
  assumes "inputs_ok logits tokens msk"
  shows "per_sequence_accuracy logits tokens (map (map real_of_int) msk)
         = map Some (map (\<lambda>b. real (spec_sequence_correct (logits ! b) (tokens ! b) (msk ! b))
                                / spec_valid_count (msk ! b)) [0..<length tokens])"
proof (rule nth_equalityI)
  note len = inputs_ok_lengths [OF assms]
  show "length (per_sequence_accuracy logits tokens (map (map real_of_int) msk)) =
      length (map Some (map (\<lambda>b. real (spec_sequence_correct (logits ! b) (tokens ! b) (msk ! b))
                                / spec_valid_count (msk ! b)) [0..<length tokens]))"
    using len by (simp add: per_sequence_accuracy_def correct_def valid_text_length_def)
  fix b
  assume "b < length (per_sequence_accuracy logits tokens (map (map real_of_int) msk))"
  then have b: "b < length tokens"
    using len by (simp add: per_sequence_accuracy_def correct_def valid_text_length_def)
  have v: "valid_text_length (map (map real_of_int) msk) ! b = spec_valid_count (msk ! b)"
    using b len by (simp add: valid_text_length_nth)
  have "per_sequence_accuracy logits tokens (map (map real_of_int) msk) ! b
      = fl_div (Some (real (length (filter id
                  (map2 (\<lambda>m c. if m > 0 then c else False) (map real_of_int (msk ! b))
                  (map2 (\<lambda>l t. int (argmax l) = t) (logits ! b) (tokens ! b)))))))
          (valid_text_length (map (map real_of_int) msk) ! b)"
    using b len
    by (simp add: per_sequence_accuracy_def correct_def valid_text_length_def)
  also have "\<dots> = Some (real (spec_sequence_correct (logits ! b) (tokens ! b) (msk ! b))
                      / spec_valid_count (msk ! b))"
    by (simp only: row_correct [OF inputs_okD [OF assms b]] v spec_valid_count_def
          fl_div_floor)
  finally show "per_sequence_accuracy logits tokens (map (map real_of_int) msk) ! b =
      map Some (map (\<lambda>b. real (spec_sequence_correct (logits ! b) (tokens ! b) (msk ! b))
                                / spec_valid_count (msk ! b)) [0..<length tokens]) ! b"
    using b by simp
qed

lemma fl_mean_Some: "xs \<noteq> [] \<Longrightarrow> fl_mean (map Some xs) = Some (sum_list xs / real (length xs))"
  by (simp add: fl_mean_def fl_sum_Some fl_div_def)

text \<open>
  C1: for logits of shape (batch, seq, vocab) and targets of shape (batch, seq), the
  function returns as loss the negated mean over the batch of the per-sequence sum of
  the log-softmax values of the targets the mask keeps, divided by the mask sum floored
  at \<open>1e-10\<close>, and as accuracy the mean over the batch of the per-sequence number of
  kept positions whose argmax is the target, divided by the same floored count; an
  absent mask is the mask of all ones.
\<close>

theorem cross_entropy_matches_spec:
  assumes "inputs_ok logits tokens (mask_or_ones tokens msk)"
  shows "cross_entropy_loss_and_accuracy logits tokens msk =
           (Some (spec_loss logits tokens (mask_or_ones tokens msk)),
            Some (spec_accuracy logits tokens (mask_or_ones tokens msk)))"
proof -
  let ?m = "mask_or_ones tokens msk"
  have ne: "map f [0..<length tokens] \<noteq> []" for f :: "nat \<Rightarrow> real"
    using inputs_ok_lengths [OF assms] by simp
  have loss: "fl_neg (fl_mean (per_sequence_log_prob logits tokens (float_mask tokens msk)))
      = Some (spec_loss logits tokens ?m)"
    by (simp only: float_mask_eq per_sequence_log_prob_eq [OF assms] fl_mean_Some [OF ne]
          sum_list_upt spec_loss_def)
       (simp add: fl_neg_def)
  have acc: "fl_mean (per_sequence_accuracy logits tokens (float_mask tokens msk))
      = Some (spec_accuracy logits tokens ?m)"
    by (simp only: float_mask_eq per_sequence_accuracy_eq [OF assms] fl_mean_Some [OF ne]
          sum_list_upt spec_accuracy_def)
       simp
  show ?thesis
    by (simp add: cross_entropy_loss_and_accuracy_def loss acc)
qed

theorem cross_entropy_matches_spec_witness:
  "cross_entropy_loss_and_accuracy [[[0, 0], [0, 0]]] [[1, 0]] None = (Some (ln 2), Some (1 / 2))"
proof -
  have ok: "inputs_ok [[[0, 0], [0, 0]]] [[1, 0]] (mask_or_ones [[1, 0]] None)"
    by (simp add: inputs_ok_def row_ok_def mask_or_ones_def all_ones_def)
  have l: "spec_loss [[[0, 0], [0, 0]]] [[1, 0]] (mask_or_ones [[1, 0]] None) = ln 2"
    by (simp add: spec_loss_def spec_sequence_log_prob_def spec_valid_count_def
        mask_or_ones_def all_ones_def log_softmax_def eval_nat_numeral)
  have a: "spec_accuracy [[[0, 0], [0, 0]]] [[1, 0]] (mask_or_ones [[1, 0]] None) = 1 / 2"
    by (simp add: spec_accuracy_def spec_sequence_correct_def spec_valid_count_def
        mask_or_ones_def all_ones_def argmax_def upt_conv_Cons)
  show ?thesis
    using cross_entropy_matches_spec [OF ok] by (simp only: l a)
qed

lemma zero_row_log_prob:
  assumes "length lrow = length trow" and "length mrow = length trow"
    and "list_all (\<lambda>x. x = 0) mrow"
  shows "fl_sum (map2 (\<lambda>m p. if m > 0 then p else Some 0) (map real_of_int mrow)
                  (map2 (\<lambda>l t. take_at (log_softmax l) t) lrow trow)) = Some 0"
proof -
  have "map2 (\<lambda>m p. if m > 0 then p else Some 0) (map real_of_int mrow)
          (map2 (\<lambda>l t. take_at (log_softmax l) t) lrow trow)
        = map Some (replicate (length trow) 0)"
    by (rule nth_equalityI) (use assms in \<open>auto simp: list_all_length\<close>)
  then show ?thesis
    by (simp only: fl_sum_Some) (simp add: sum_list_replicate)
qed

lemma zero_row_correct:
  assumes "length lrow = length trow" and "length mrow = length trow"
    and "list_all (\<lambda>x. x = 0) mrow"
  shows "filter id (map2 (\<lambda>m c. if m > 0 then c else False) (map real_of_int mrow)
                  (map2 (\<lambda>l t. int (argmax l) = t) lrow trow)) = []"
proof -
  have "map2 (\<lambda>m c. if m > 0 then c else False) (map real_of_int mrow)
          (map2 (\<lambda>l t. int (argmax l) = t) lrow trow)
        = replicate (length trow) False"
    by (rule nth_equalityI) (use assms in \<open>auto simp: list_all_length\<close>)
  then show ?thesis
    by (simp only:) simp
qed

lemma zero_row_sum: "list_all (\<lambda>x. x = 0) mrow \<Longrightarrow> sum_list (map real_of_int mrow) = 0"
  by (induction mrow) simp_all

lemma fl_div_zero_floor: "fl_div (Some 0) (max 0 (1 / 10 ^ 10)) = Some 0"
  by (simp add: fl_div_def)

lemma zero_row_without_floor:
  "list_all (\<lambda>x. x = 0) mrow \<Longrightarrow> fl_div (Some 0) (sum_list (map real_of_int mrow)) = None"
  by (simp add: zero_row_sum fl_div_def)

lemma cross_entropy_finite:
  assumes "inputs_ok logits tokens m"
  shows "\<exists>l a. cross_entropy_loss_and_accuracy logits tokens (Some m) = (Some l, Some a)"
proof -
  have ne: "map f [0..<length tokens] \<noteq> []" for f :: "nat \<Rightarrow> real"
    using inputs_ok_lengths [OF assms] by simp
  show ?thesis
    by (simp add: cross_entropy_loss_and_accuracy_def float_mask_def
        per_sequence_log_prob_eq [OF assms] per_sequence_accuracy_eq [OF assms]
        fl_mean_Some [OF ne] fl_neg_def del: map_map)
qed

text \<open>
  C2: when the mask row of a sequence is all zero, that sequence's term is exactly 0
  in both means, whatever its logits and targets are (the floor makes the quotient
  \<open>0 / 1e-10\<close>, where \<open>0 / 0\<close> would not be a number); and the loss and the accuracy
  are finite numbers when the inputs are otherwise as the function expects them.
\<close>

theorem fully_masked_row_contributes_zero:
  assumes "length logits = length tokens" and "length m = length tokens"
    and "b < length tokens"
    and "length (logits ! b) = length (tokens ! b)" and "length (m ! b) = length (tokens ! b)"
    and "list_all (\<lambda>x. x = 0) (m ! b)"
  shows "per_sequence_log_prob logits tokens (float_mask tokens (Some m)) ! b = Some 0 \<and>
         per_sequence_accuracy logits tokens (float_mask tokens (Some m)) ! b = Some 0 \<and>
         (inputs_ok logits tokens m \<longrightarrow>
            (\<exists>l a. cross_entropy_loss_and_accuracy logits tokens (Some m) = (Some l, Some a)))"
proof (intro conjI impI)
  have v: "valid_text_length (map (map real_of_int) m) ! b = max 0 (1 / 10 ^ 10)"
    using assms(2,3) zero_row_sum [OF assms(6)] by (simp add: valid_text_length_def)
  have "per_sequence_log_prob logits tokens (float_mask tokens (Some m)) ! b
      = fl_div (fl_sum (map2 (\<lambda>m p. if m > 0 then p else Some 0) (map real_of_int (m ! b))
                  (map2 (\<lambda>l t. take_at (log_softmax l) t) (logits ! b) (tokens ! b))))
          (valid_text_length (map (map real_of_int) m) ! b)"
    using assms(1-3)
    by (simp add: per_sequence_log_prob_def token_log_prob_def valid_text_length_def
        float_mask_def)
  then show "per_sequence_log_prob logits tokens (float_mask tokens (Some m)) ! b = Some 0"
    by (simp only: zero_row_log_prob [OF assms(4-6)] v fl_div_zero_floor)
  have "per_sequence_accuracy logits tokens (float_mask tokens (Some m)) ! b
      = fl_div (Some (real (length (filter id
                  (map2 (\<lambda>m c. if m > 0 then c else False) (map real_of_int (m ! b))
                  (map2 (\<lambda>l t. int (argmax l) = t) (logits ! b) (tokens ! b)))))))
          (valid_text_length (map (map real_of_int) m) ! b)"
    using assms(1-3)
    by (simp add: per_sequence_accuracy_def correct_def valid_text_length_def float_mask_def)
  then show "per_sequence_accuracy logits tokens (float_mask tokens (Some m)) ! b = Some 0"
    by (simp only: zero_row_correct [OF assms(4-6)] v) (simp add: fl_div_def)
next
  assume "inputs_ok logits tokens m"
  then show "\<exists>l a. cross_entropy_loss_and_accuracy logits tokens (Some m) = (Some l, Some a)"
    by (rule cross_entropy_finite)
qed

theorem fully_masked_row_witness:
  "per_sequence_log_prob example_logits example_tokens
     (float_mask example_tokens (Some example_mask)) ! 1 = Some 0 \<and>
   per_sequence_accuracy example_logits example_tokens
     (float_mask example_tokens (Some example_mask)) ! 1 = Some 0 \<and>
   (\<exists>l a. cross_entropy_loss_and_accuracy example_logits example_tokens (Some example_mask)
            = (Some l, Some a))"
  using fully_masked_row_contributes_zero [of example_logits example_tokens example_mask 1]
  by (simp add: example_logits_def example_tokens_def example_mask_def inputs_ok_def row_ok_def)

section \<open>Properties of the forward pass\<close>

text \<open>
  C5: on a batch with input ids and labels, the forward pass gives the loss function
  the logits without the last position of each sequence, the labels without the first
  position, and the attention mask without the first position when the batch has one,
  no mask otherwise.
\<close>

theorem forward_shifts:
  assumes "map_of batch ''input_ids'' = Some input_ids"
    and "map_of batch ''labels'' = Some labels"
    and "logits = apply_model model_params input_ids (map_of batch ''attention_mask'')
                    (map_of batch ''position_ids'')"
  shows "forward apply_model model_params batch =
           Inr (cross_entropy_loss_and_accuracy (map butlast logits) (map tl (rows labels))
                  (case map_of batch ''attention_mask'' of
                     None \<Rightarrow> None
                   | Some attention_mask \<Rightarrow> Some (map tl (rows attention_mask))))"
proof -
  have 1: "remove_last_logit x = map butlast x" for x
    by (simp add: remove_last_logit_def butlast_conv_take)
  have 2: "rows (remove_first_token t) = map tl (rows t)" for t
    by (simp add: remove_first_token_def drop_Suc)
  show ?thesis
    using assms
    by (simp add: forward_def getitem_def 1 2 Let_def split: option.splits)
qed

theorem forward_shifts_witness:
  "forward example_model () example_canonical_batch =
     Inr (cross_entropy_loss_and_accuracy
            (map butlast (example_model ()
               \<lparr>kind = JaxArray, dtype = Int32, ncols = 3, rows = [[5, 6, 7]]\<rparr>
               (Some \<lparr>kind = JaxArray, dtype = Int32, ncols = 3, rows = [[1, 1, 0]]\<rparr>)
               (Some \<lparr>kind = JaxArray, dtype = Int32, ncols = 3, rows = [[0, 1, 2]]\<rparr>)))
            [[6, 7]] (Some [[1, 0]]))"
  using forward_shifts [of example_canonical_batch
      "\<lparr>kind = JaxArray, dtype = Int32, ncols = 3, rows = [[5, 6, 7]]\<rparr>"
      "\<lparr>kind = JaxArray, dtype = Int32, ncols = 3, rows = [[5, 6, 7]]\<rparr>"
      _ example_model "()"]
  by (simp add: example_canonical_batch_def)

section \<open>Properties of the training loop\<close>







lemma upt_Suc_add: "[Suc k..<Suc (Suc (k + n))] = Suc k # [Suc (Suc k)..<Suc (Suc (k + n))]"
  by (rule upt_conv_Cons) simp

lemma steps_loop_events:
  "filter is_step pend = [] \<Longrightarrow>
   map step_no (filter is_step (loop_events ck k pend rs)) = [Suc k..<Suc k + length rs]"
proof (induction rs arbitrary: k pend)
  case Nil
  show ?case by simp
next
  case (Cons r rs)
  obtain l a where r: "r = (l, a)" by (cases r)
  have "map step_no (filter is_step (loop_events ck (Suc k) [Print_metrics (Suc k) l a] rs))
          = [Suc (Suc k)..<Suc (Suc k) + length rs]"
    by (rule Cons.IH) simp
  then show ?case
    using Cons.prems by (simp add: r upt_Suc_add del: upt_Suc)
qed

lemma calls_loop_events:
  "filter is_call pend = [] \<Longrightarrow>
   filter is_call (loop_events True k pend rs) = map Save_checkpoint [Suc k..<Suc k + length rs]"
proof (induction rs arbitrary: k pend)
  case Nil
  show ?case by simp
next
  case (Cons r rs)
  obtain l a where r: "r = (l, a)" by (cases r)
  have "filter is_call (loop_events True (Suc k) [Print_metrics (Suc k) l a] rs)
          = map Save_checkpoint [Suc (Suc k)..<Suc (Suc k) + length rs]"
    by (rule Cons.IH) simp
  then show ?case
    using Cons.prems by (simp add: r upt_Suc_add del: upt_Suc)
qed

lemma prints_loop_events:
  "filter is_step pend = [] \<Longrightarrow> filter is_print_metrics pend = pend \<Longrightarrow>
   filter (\<lambda>e. is_step e \<or> is_print_metrics e) (loop_events ck k pend rs) =
     (if rs = [] then [] else pend @ deferred (filter is_step (loop_events ck k pend rs)))"
proof (induction rs arbitrary: k pend)
  case Nil
  show ?case by simp
next
  case (Cons r rs)
  obtain l a where r: "r = (l, a)" by (cases r)
  let ?p = "[Print_metrics (Suc k) l a]"
  have IH: "filter (\<lambda>e. is_step e \<or> is_print_metrics e) (loop_events ck (Suc k) ?p rs) =
     (if rs = [] then [] else ?p @ deferred (filter is_step (loop_events ck (Suc k) ?p rs)))"
    by (rule Cons.IH) simp_all
  have pend: "filter (\<lambda>e. is_step e \<or> is_print_metrics e) pend = pend"
    using Cons.prems(2) by (metis (mono_tags, lifting) filter_id_conv)
  show ?case
  proof (cases rs)
    case Nil
    then show ?thesis using Cons.prems pend by (simp add: r)
  next
    case (Cons r' rs')
    obtain l' a' where r': "r' = (l', a')" by (cases r')
    show ?thesis
      using IH Cons.prems pend by (simp add: r Cons r')
  qed
qed


lemma steps_loop_events_len:
  "filter is_step pend = [] \<Longrightarrow> length (filter is_step (loop_events ck k pend rs)) = length rs"
  using steps_loop_events [of pend ck k rs]
  by (metis length_map length_upt add_diff_cancel_left')

lemma deferred_concat:
  "es \<noteq> [] \<Longrightarrow> deferred es = concat (map (\<lambda>e. [e, print_of e]) (butlast es)) @ [last es]"
  by (induction es rule: deferred.induct) simp_all

lemma prints_deferred:
  "list_all is_step es \<Longrightarrow> filter is_print_metrics (deferred es) = map print_of (butlast es)"
proof (induction es rule: deferred.induct)
  case 1
  show ?case by simp
next
  case (2 e)
  then show ?case by (cases e) simp_all
next
  case (3 e e' es)
  then show ?case by (cases e) simp_all
qed

lemma steps_with_saves_loop_events:
  "filter (\<lambda>e. is_step e \<or> is_call e) pend = [] \<Longrightarrow>
   filter (\<lambda>e. is_step e \<or> is_call e) (loop_events True k pend rs) =
     concat (map (\<lambda>e. [e, Save_checkpoint (step_no e)])
               (filter is_step (loop_events True k pend rs)))"
proof (induction rs arbitrary: k pend)
  case Nil
  show ?case by simp
next
  case (Cons r rs)
  obtain l a where r: "r = (l, a)" by (cases r)
  let ?p = "[Print_metrics (Suc k) l a]"
  have IH: "filter (\<lambda>e. is_step e \<or> is_call e) (loop_events True (Suc k) ?p rs) =
     concat (map (\<lambda>e. [e, Save_checkpoint (step_no e)])
               (filter is_step (loop_events True (Suc k) ?p rs)))"
    by (rule Cons.IH) simp
  have "filter is_step pend = []"
    using Cons.prems by (simp add: filter_empty_conv)
  then show ?case
    using IH Cons.prems by (simp add: r)
qed

text \<open>
  What a run that returns without raising has done, whatever its batches are: the loop
  ran some iterations with a step each and then stopped, by exhaustion or at the cap.
\<close>

lemma loop_body_Continue_form:
  assumes "loop_body am up ck ms k b s = Continue s'"
  shows "\<not> step_ge k ms \<and>
         (\<exists>l a p'. s' =
           \<lparr>params = p', step_var = Some k, prev_step = Suc k, prev_loss = l,
             prev_accuracy = a,
             trace = trace s @ pending k s @ [Training_step (Suc k) l a] @
                     (if ck then [Save_checkpoint (Suc k)] else [])\<rparr>)"
  using assms
  by (cases s)
     (auto simp: loop_body_def pending_def Let_def split: if_splits sum.splits prod.splits)

lemma loop_body_Break_form:
  assumes "loop_body am up ck ms k b s = Break s'"
  shows "s' = s\<lparr>step_var := Some k\<rparr>"
  using assms
  by (auto simp: loop_body_def Let_def split: if_splits sum.splits prod.splits)

lemma train_loop_returns:
  assumes "train_loop am up ck ms k bs s = (None, s')"
  shows "\<exists>rs. trace s' = trace s @ loop_events ck k (pending k s) rs \<and>
           length rs \<le> length bs \<and>
           step_var s' =
             (if bs = [] then step_var s
              else Some (if length rs < length bs then k + length rs else k + length rs - 1))"
  using assms
proof (induction bs arbitrary: k s)
  case Nil
  then show ?case
    by (intro exI [of _ "[]"]) simp
next
  case (Cons b bs)
  show ?case
  proof (cases "loop_body am up ck ms k b s")
    case (Continue s1)
    from loop_body_Continue_form [OF Continue]
    obtain l a p' where s1: "s1 =
           \<lparr>params = p', step_var = Some k, prev_step = Suc k, prev_loss = l,
             prev_accuracy = a,
             trace = trace s @ pending k s @ [Training_step (Suc k) l a] @
                     (if ck then [Save_checkpoint (Suc k)] else [])\<rparr>"
      by blast
    have run: "train_loop am up ck ms (Suc k) bs s1 = (None, s')"
      using Cons.prems Continue by simp
    from Cons.IH [OF run]
    obtain rs where tr: "trace s' = trace s1 @ loop_events ck (Suc k) (pending (Suc k) s1) rs"
      and le: "length rs \<le> length bs"
      and sv: "step_var s' =
             (if bs = [] then step_var s1
              else Some (if length rs < length bs then Suc k + length rs
                         else Suc k + length rs - 1))"
      by blast
    show ?thesis
    proof (intro exI [of _ "(l, a) # rs"] conjI)
      show "trace s' = trace s @ loop_events ck k (pending k s) ((l, a) # rs)"
        using tr by (simp add: s1 pending_def)
      show "length ((l, a) # rs) \<le> length (b # bs)"
        using le by simp
      show "step_var s' =
             (if b # bs = [] then step_var s
              else Some (if length ((l, a) # rs) < length (b # bs) then k + length ((l, a) # rs)
                         else k + length ((l, a) # rs) - 1))"
        using sv le by (cases bs) (auto simp: s1)
    qed
  next
    case (Break s1)
    have "s' = s\<lparr>step_var := Some k\<rparr>"
      using Cons.prems Break loop_body_Break_form [OF Break] by simp
    then show ?thesis
      by (intro exI [of _ "[]"]) simp
  next
    case (Raise e s1)
    then show ?thesis
      using Cons.prems by simp
  qed
qed

lemma train_returns:
  assumes "train cfg am up ck dl p0 = (tr, Inr p)"
  shows "\<exists>rs. length rs \<le> length dl \<and> \<not> (ck \<and> dl = []) \<and>
           tr = loop_events ck 0 [] rs @
                (if ck then [Save_checkpoint (if length rs < length dl then Suc (length rs)
                                              else length rs),
                             Wait_until_finished, Print_final_checkpoint]
                 else []) @
                finish_events cfg"
proof -
  let ?s0 = "\<lparr>params = p0, step_var = None, prev_step = 0,
                prev_loss = Some 0, prev_accuracy = Some 0, trace = []\<rparr>"
  obtain err s' where run: "train_loop am up ck (max_steps_of cfg) 0 dl ?s0 = (err, s')"
    by (cases "train_loop am up ck (max_steps_of cfg) 0 dl ?s0")
  have err: "err = None"
    using assms run by (cases err) (simp_all add: train_def)
  from train_loop_returns [OF run [unfolded err]]
  obtain rs where tr: "trace s' = trace ?s0 @ loop_events ck 0 (pending 0 ?s0) rs"
    and le: "length rs \<le> length dl"
    and sv: "step_var s' =
             (if dl = [] then step_var ?s0
              else Some (if length rs < length dl then 0 + length rs else 0 + length rs - 1))"
    by blast
  have tr': "trace s' = loop_events ck 0 [] rs"
    using tr by (simp add: pending_def)
  show ?thesis
    apply (rule exI [of _ rs])
    using assms le sv
    by (auto simp add: train_def run err tr' finish_events_def Let_def split: if_splits)
qed

text \<open>The facts that evaluate a run on the example inputs.\<close>

lemmas eval_train =
  train_def max_steps_of_def loop_body_def step_ge_def path_join_def
  preprocess_batch_def heap_alloc_def getitem_def heap_setitem_def to_array_def to_jax_def
  astype_int32_def wrap_int32_def position_ids_of_def arange_def upt_conv_Cons
  training_step_def forward_def remove_last_logit_def remove_first_token_def
  cross_entropy_loss_and_accuracy_def float_mask_def per_sequence_log_prob_def
  per_sequence_accuracy_def token_log_prob_def valid_text_length_def correct_def
  fl_mean_def fl_sum_def fl_div_def fl_add_def fl_neg_def take_at_def log_softmax_def
  argmax_def example_config_def example_batch_def example_bad_batch_def example_model_def
  example_update_def steps_executed_def Let_def

lemma list_all_is_step_filter: "list_all is_step (filter is_step es)"
  by (simp add: list_all_iff)






text \<open>
  C8, as the specification states it, speaks of every run that executes \<open>n \<ge> 1\<close>
  steps.  A run whose second batch has no \<^verbatim>\<open>"input_ids"\<close> executes its first step
  and saves its checkpoint; in the second iteration the preprocessor raises
  \<^verbatim>\<open>KeyError\<close>, which ends the run: one save for one step, no save after the loop,
  no barrier, no export.
\<close>

theorem train_aborted_run_counterexample:
  "steps_executed (fst (train (example_config None) example_model example_update True
      [example_batch, example_bad_batch] ())) = 1 \<and>
   filter is_call (fst (train (example_config None) example_model example_update True
      [example_batch, example_bad_batch] ())) = [Save_checkpoint 1] \<and>
   snd (train (example_config None) example_model example_update True
      [example_batch, example_bad_batch] ()) = Inl (KeyError ''input_ids'')"
  by (simp add: eval_train)

text \<open>
  C8 (amended): in every run with a checkpointer that returns without raising and in
  which the loop executes \<open>n \<ge> 1\<close> steps, the calls to the collaborators are, in
  order: one checkpoint save after each step, tagged with the step number, one more
  save after the loop, then the wait barrier, then the export.  So there are \<open>n + 1\<close>
  saves, one barrier and, after it, one export.
\<close>

theorem train_checkpoint_calls:
  assumes "train cfg am up True dl p0 = (tr, Inr p)"
    and "n = steps_executed tr"
    and "1 \<le> n"
  shows "\<exists>t. (t = n \<or> t = Suc n) \<and>
           filter is_call tr =
             map Save_checkpoint [1..<Suc n] @
             [Save_checkpoint t, Wait_until_finished,
              Save_model_to_hf (path_join (base_dir cfg) ''hf_export'') (model_name cfg)] \<and>
           length (filter is_save tr) = n + 1 \<and>
           filter (\<lambda>e. is_step e \<or> is_call e) tr =
             concat (map (\<lambda>e. [e, Save_checkpoint (step_no e)]) (filter is_step tr)) @
             [Save_checkpoint t, Wait_until_finished,
              Save_model_to_hf (path_join (base_dir cfg) ''hf_export'') (model_name cfg)]"
proof -
  let ?t = "\<lambda>rs. if length rs < length dl then Suc (length rs) else length rs"
  from train_returns [OF assms(1)]
  obtain rs where tr0: "tr = loop_events True 0 [] rs @
                (if True then [Save_checkpoint (?t rs), Wait_until_finished,
                               Print_final_checkpoint]
                 else []) @
                finish_events cfg"
    by blast
  have tr: "tr = loop_events True 0 [] rs @
               [Save_checkpoint (?t rs), Wait_until_finished, Print_final_checkpoint] @
               finish_events cfg"
    using tr0 by simp
  have n: "n = length rs"
    using assms(2) by (simp add: tr steps_executed_def finish_events_def steps_loop_events_len)
  have calls: "filter is_call (loop_events True 0 [] rs) = map Save_checkpoint [1..<Suc n]"
    using calls_loop_events [of "[]" 0 rs] by (simp add: n)
  have saves: "filter is_save (map Save_checkpoint ks) = map Save_checkpoint ks" for ks
    by (induction ks) simp_all
  have "filter is_save (loop_events True 0 [] rs) =
          filter is_save (filter is_call (loop_events True 0 [] rs))"
    by (simp add: filter_filter) (metis (mono_tags, lifting) filter_cong is_call.simps is_save.elims(2))
  then have nsaves: "length (filter is_save (loop_events True 0 [] rs)) = n"
    by (simp add: calls saves)
  have both: "filter (\<lambda>e. is_step e \<or> is_call e) (loop_events True 0 [] rs) =
     concat (map (\<lambda>e. [e, Save_checkpoint (step_no e)])
               (filter is_step (loop_events True 0 [] rs)))"
    by (rule steps_with_saves_loop_events) simp
  show ?thesis
    apply (rule exI [of _ "?t rs"])
    using n calls nsaves both
    by (simp add: tr finish_events_def)
qed

theorem train_checkpoint_calls_witness:
  "\<exists>t. filter is_call (fst (train (example_config (Some 1)) example_model example_update True
            [example_batch, example_bad_batch] ())) =
       [Save_checkpoint 1, Save_checkpoint t, Wait_until_finished,
        Save_model_to_hf ''/mnt/persistent-disk/hf_export'' ''meta-llama/Llama-3.2-1B''] \<and>
     length (filter is_save (fst (train (example_config (Some 1)) example_model example_update
            True [example_batch, example_bad_batch] ()))) = 2"
proof -
  let ?run = "train (example_config (Some 1)) example_model example_update True
            [example_batch, example_bad_batch] ()"
  have run: "?run = (fst ?run, Inr ())"
    by (simp add: prod_eq_iff eval_train)
  have n: "1 = steps_executed (fst ?run)"
    by (simp add: eval_train)
  have cfg: "path_join (base_dir (example_config (Some 1))) ''hf_export'' =
               ''/mnt/persistent-disk/hf_export''"
     "model_name (example_config (Some 1)) = ''meta-llama/Llama-3.2-1B''"
    by (simp_all add: path_join_def example_config_def)
  from train_checkpoint_calls [OF run n]
  show ?thesis
    by (auto simp: cfg)
qed

text \<open>
  C9: when the data loader yields no batch and a checkpointer is configured, the run
  ends with the error of reading the unbound loop variable \<^verbatim>\<open>step\<close>; nothing has
  happened before it: no checkpoint is saved and the export is not reached.
\<close>

theorem train_no_batches:
  "train cfg am up True [] p0 = ([], Inl (UnboundLocalError ''step''))"
  by (simp add: train_def)

theorem train_no_batches_witness:
  "train (example_config (Some 5)) example_model example_update True [] ()
     = ([], Inl (UnboundLocalError ''step''))"
  by (rule train_no_batches)

text \<open>
  C10, as stated, speaks of every run that executes \<open>n \<ge> 1\<close> steps.  In the run
  whose second batch has no \<^verbatim>\<open>"input_ids"\<close>, the second iteration prints the
  metrics of step 1 before the preprocessor raises: one step was executed, and the
  metrics of that last step are printed.
\<close>

theorem train_aborted_run_prints_counterexample:
  "steps_executed (fst (train (example_config None) example_model example_update False
      [example_batch, example_bad_batch] ())) = 1 \<and>
   filter is_print_metrics (fst (train (example_config None) example_model example_update False
      [example_batch, example_bad_batch] ())) =
     map print_of (filter is_step (fst (train (example_config None) example_model
      example_update False [example_batch, example_bad_batch] ()))) \<and>
   length (filter is_print_metrics (fst (train (example_config None) example_model
      example_update False [example_batch, example_bad_batch] ()))) = 1 \<and>
   snd (train (example_config None) example_model example_update False
      [example_batch, example_bad_batch] ()) = Inl (KeyError ''input_ids'')"
  by (simp add: eval_train)

text \<open>
  C10 (amended): in every run that returns without raising and executes \<open>n \<ge> 1\<close>
  steps, the steps are numbered \<open>1, ..., n\<close>; the metrics of each step but the last
  are printed after that step and before the next one, and the metrics of step \<open>n\<close>
  are never printed: the metric lines are exactly those of the steps before the last.
\<close>

theorem train_metrics_printed_one_iteration_late:
  assumes "train cfg am up ck dl p0 = (tr, Inr p)"
    and "n = steps_executed tr"
    and "1 \<le> n"
  shows "map step_no (filter is_step tr) = [1..<Suc n] \<and>
         filter (\<lambda>e. is_step e \<or> is_print_metrics e) tr =
           concat (map (\<lambda>e. [e, print_of e]) (butlast (filter is_step tr))) @
           [last (filter is_step tr)] \<and>
         filter is_print_metrics tr = map print_of (butlast (filter is_step tr))"
proof -
  from train_returns [OF assms(1)]
  obtain rs where tr: "tr = loop_events ck 0 [] rs @
                (if ck then [Save_checkpoint (if length rs < length dl then Suc (length rs)
                                              else length rs),
                             Wait_until_finished, Print_final_checkpoint]
                 else []) @
                finish_events cfg"
    by blast
  let ?loop = "loop_events ck 0 [] rs"
  have steps: "filter is_step tr = filter is_step ?loop"
    and sp: "filter (\<lambda>e. is_step e \<or> is_print_metrics e) tr =
             filter (\<lambda>e. is_step e \<or> is_print_metrics e) ?loop"
    and pr: "filter is_print_metrics tr = filter is_print_metrics ?loop"
    by (simp_all add: tr finish_events_def)
  have n: "n = length rs"
    using assms(2) by (simp add: steps steps_executed_def steps_loop_events_len)
  then have rs: "rs \<noteq> []"
    using assms(3) by auto
  have ne: "filter is_step ?loop \<noteq> []"
    using rs steps_loop_events_len [of "[]" ck 0 rs] by (metis filter.simps(1) length_0_conv)
  have 1: "map step_no (filter is_step tr) = [1..<Suc n]"
    using steps_loop_events [of "[]" ck 0 rs] by (simp add: steps n)
  have d: "filter (\<lambda>e. is_step e \<or> is_print_metrics e) ?loop = deferred (filter is_step ?loop)"
    using prints_loop_events [of "[]" ck 0 rs] rs by simp
  have 2: "filter (\<lambda>e. is_step e \<or> is_print_metrics e) tr =
           concat (map (\<lambda>e. [e, print_of e]) (butlast (filter is_step tr))) @
           [last (filter is_step tr)]"
    using d deferred_concat [OF ne] by (simp add: sp steps)
  have "filter is_print_metrics ?loop =
          filter is_print_metrics (filter (\<lambda>e. is_step e \<or> is_print_metrics e) ?loop)"
    by (simp add: filter_filter) (metis (mono_tags, lifting) filter_cong)
  then have 3: "filter is_print_metrics tr = map print_of (butlast (filter is_step tr))"
    using prints_deferred [OF list_all_is_step_filter, of ?loop]
    by (simp add: pr steps d)
  show ?thesis
    using 1 2 3 by simp
qed

theorem train_metrics_witness:
  "\<exists>l1 a1 l2 a2.
     filter (\<lambda>e. is_step e \<or> is_print_metrics e)
       (fst (train (example_config (Some 2)) example_model example_update False
          [example_batch, example_batch, example_bad_batch] ())) =
     [Training_step 1 l1 a1, Print_metrics 1 l1 a1, Training_step 2 l2 a2]"
proof -
  let ?run = "train (example_config (Some 2)) example_model example_update False
          [example_batch, example_batch, example_bad_batch] ()"
  let ?tr = "fst ?run"
  have run: "?run = (?tr, Inr ())"
    by (simp add: prod_eq_iff eval_train)
  have n: "2 = steps_executed ?tr"
    by (simp add: eval_train)
  have u: "[Suc 0..<3] = [Suc 0, 2]"
    by (simp add: upt_conv_Cons)
  from train_metrics_printed_one_iteration_late [OF run n]
  have steps: "map step_no (filter is_step ?tr) = [1, 2]"
    and sp: "filter (\<lambda>e. is_step e \<or> is_print_metrics e) ?tr =
           concat (map (\<lambda>e. [e, print_of e]) (butlast (filter is_step ?tr))) @
           [last (filter is_step ?tr)]"
    by (simp_all add: u)
  from steps obtain e1 e2 where es: "filter is_step ?tr = [e1, e2]"
    and no: "step_no e1 = 1" "step_no e2 = 2"
    by (auto simp: map_eq_Cons_conv)
  have "list_all is_step [e1, e2]"
    using list_all_is_step_filter [of ?tr] by (simp add: es)
  then obtain l1 a1 l2 a2 where
    "e1 = Training_step 1 l1 a1" "e2 = Training_step 2 l2 a2"
    using no by (cases e1; cases e2) auto
  then show ?thesis
    using sp es by auto
qed

end
